theory Spec2Isabelle
  imports Complex_Main
begin

section \<open>Errors\<close>

text \<open>
  QuantLib reports every failure by throwing \<open>Error\<close> with a message (\<open>QL_REQUIRE\<close>,
  \<open>QL_FAIL\<close>); the specification names four further kinds. A function that can throw
  returns \<open>error + 'a\<close>, with \<open>Inl\<close> for the exception.
\<close>

datatype error =
    QlError string
  | InvalidMesherConfig
  | DimensionMismatch
  | SingularSystem
  | StaleQuery

section \<open>Boundary conditions of \<open>FdHestonRebateEngine::calculate\<close>\<close>

datatype BarrierType = DownIn | UpIn | DownOut | UpOut

datatype ExerciseType = American | Bermudan | European

datatype Side = Upper | Lower

text \<open>
  Modelled from the spec: the classes of boundary condition are declared in the
  utilities of the finite-difference framework. The specification has two kinds, one pinning the value (Dirichlet)
  and one forcing zero flux (Neumann), each attached to one edge of one axis. The
  Dirichlet constructor takes the arguments the engine passes after the mesher: the
  value on the boundary, the direction (axis) and the side.
\<close>

datatype BoundaryCondition =
    FdmDirichletBoundary real nat Side
  | FdmNeumannBoundary nat Side

record RebateArguments =
  barrierType :: BarrierType
  barrier :: real
  rebate :: real
  exerciseType :: ExerciseType

text \<open>
  The part of the solver description that \<open>calculate\<close> fills from the barrier: the bounds
  handed to the equity mesher (\<open>Null<Real>()\<close> is \<open>None\<close>) and the boundary condition set.
\<close>

record RebateSolverDesc =
  xMin :: "real option"
  xMax :: "real option"
  bcSet :: "BoundaryCondition list"

definition isDown :: "BarrierType \<Rightarrow> bool" where
  "isDown b \<longleftrightarrow> b = DownIn \<or> b = DownOut"

definition isUp :: "BarrierType \<Rightarrow> bool" where
  "isUp b \<longleftrightarrow> b = UpIn \<or> b = UpOut"

definition rebate_boundaries :: "RebateArguments \<Rightarrow> BoundaryCondition list" where
  "rebate_boundaries args =
     (let boundaries = [];
          boundaries = (if isDown (barrierType args)
                        then boundaries @ [FdmDirichletBoundary (rebate args) 0 Lower]
                        else boundaries);
          boundaries = (if isUp (barrierType args)
                        then boundaries @ [FdmDirichletBoundary (rebate args) 0 Upper]
                        else boundaries)
      in boundaries)"

definition FdHestonRebateEngine_calculate :: "RebateArguments \<Rightarrow> error + RebateSolverDesc" where
  "FdHestonRebateEngine_calculate args =
     (let xlo = (if isDown (barrierType args) then Some (ln (barrier args)) else None);
          xhi = (if isUp (barrierType args) then Some (ln (barrier args)) else None)
      in if exerciseType args \<noteq> European
         then Inl (QlError ''only european style option are supported'')
         else Inr \<lparr>xMin = xlo, xMax = xhi, bcSet = rebate_boundaries args\<rparr>)"

section \<open>Inner value calculators\<close>

text \<open>
  A grid iterator carries its linear index and its coordinate per axis. The mesher is
  used through its interface only: the sizes per axis (\<open>layout()->dim()\<close>), the
  iterators from \<open>layout()->begin()\<close> up to \<open>layout()->end()\<close> in their order, and the
  location and the two spacings of a point along an axis.
\<close>

record FdmLinearOpIterator =
  index :: nat
  coordinates :: "nat list"

record FdmMesher =
  dim :: "nat list"
  layout_iters :: "FdmLinearOpIterator list"
  location :: "FdmLinearOpIterator \<Rightarrow> nat \<Rightarrow> real"
  dplus :: "FdmLinearOpIterator \<Rightarrow> nat \<Rightarrow> real"
  dminus :: "FdmLinearOpIterator \<Rightarrow> nat \<Rightarrow> real"

subsection \<open>\<open>FdmLogBasketInnerValue\<close>\<close>

record FdmLogBasketInnerValue =
  basket_payoff :: "real list \<Rightarrow> real"
  basket_mesher :: FdmMesher

definition FdmLogBasketInnerValue_innerValue ::
  "FdmLogBasketInnerValue \<Rightarrow> FdmLinearOpIterator \<Rightarrow> real \<Rightarrow> real" where
  "FdmLogBasketInnerValue_innerValue c iter t =
     (let x = map (\<lambda>i. exp (location (basket_mesher c) iter i))
                  [0 ..< length (dim (basket_mesher c))]
      in basket_payoff c x)"

definition FdmLogBasketInnerValue_avgInnerValue ::
  "FdmLogBasketInnerValue \<Rightarrow> FdmLinearOpIterator \<Rightarrow> real \<Rightarrow> real" where
  "FdmLogBasketInnerValue_avgInnerValue c iter t = FdmLogBasketInnerValue_innerValue c iter t"

subsection \<open>\<open>FdmLogInnerValue\<close>\<close>

text \<open>
  The calculator object: payoff, mesher, direction, and the mutable table
  \<open>avgInnerValues_\<close>, empty in a new object. A member function that writes the table
  returns the object updated.
\<close>

text \<open>
  Reals stand for the doubles of the source wherever the source computes a finite
  number. The one place where it need not is the quotient of \<open>avgInnerValueCalc\<close>: a
  division by zero gives NaN or an infinity there, which \<open>NotFinite\<close> stands for. The
  table holds such values.
\<close>

datatype AvgValue = Finite real | NotFinite

record FdmLogInnerValue =
  payoff :: "real \<Rightarrow> real"
  mesher :: FdmMesher
  direction :: nat
  avgInnerValues :: "AvgValue list"

text \<open>
  \<open>SimpsonIntegral(acc, maxIterations)(f, a, b)\<close>, the construction of the integrator
  and its call on \<open>f\<close> between \<open>a\<close> and \<open>b\<close>, belongs to the integration library and can
  throw in either part; it is a parameter of the model, of this type.
\<close>

type_synonym integrator = "real \<Rightarrow> nat \<Rightarrow> (real \<Rightarrow> real) \<Rightarrow> real \<Rightarrow> real \<Rightarrow> error + real"

definition FdmLogInnerValue_innerValue ::
  "FdmLogInnerValue \<Rightarrow> FdmLinearOpIterator \<Rightarrow> real \<Rightarrow> real" where
  "FdmLogInnerValue_innerValue c iter t =
     (let s = exp (location (mesher c) iter (direction c)) in payoff c s)"

text \<open>
  \<open>Size\<close> is unsigned, so \<open>dim-1\<close> wraps when \<open>dim\<close> is 0. The bounds \<open>a\<close> and \<open>b\<close> of
  the integration, the integrand \<open>f\<close> and the accuracy \<open>acc\<close> of \<open>avgInnerValueCalc\<close>
  follow, each as a function of the calculator and the iterator. When \<open>a = b\<close>, as on
  an axis with a single point, the quotient by \<open>b - a\<close> is not a finite number.
\<close>

definition size_pred :: "nat \<Rightarrow> nat" where
  "size_pred n = (if n = 0 then 2 ^ 64 - 1 else n - 1)"

definition cell_lower :: "FdmLogInnerValue \<Rightarrow> FdmLinearOpIterator \<Rightarrow> real" where
  "cell_lower c iter =
     (let coord = coordinates iter ! direction c;
          loc = location (mesher c) iter (direction c)
      in if coord > 0 then loc - dminus (mesher c) iter (direction c) / 2 else loc)"

definition cell_upper :: "FdmLogInnerValue \<Rightarrow> FdmLinearOpIterator \<Rightarrow> real" where
  "cell_upper c iter =
     (let n = dim (mesher c) ! direction c;
          coord = coordinates iter ! direction c;
          loc = location (mesher c) iter (direction c)
      in if coord < size_pred n then loc + dplus (mesher c) iter (direction c) / 2 else loc)"

definition log_payoff :: "FdmLogInnerValue \<Rightarrow> real \<Rightarrow> real" where
  "log_payoff c x = payoff c (exp x)"

definition simpson_accuracy :: "FdmLogInnerValue \<Rightarrow> real \<Rightarrow> real \<Rightarrow> real" where
  "simpson_accuracy c a b =
     (if log_payoff c a \<noteq> 0 \<or> log_payoff c b \<noteq> 0
      then (log_payoff c a + log_payoff c b) * (5 / 100000)
      else 1 / 10000)"

definition avgInnerValueCalc ::
  "integrator \<Rightarrow> FdmLogInnerValue \<Rightarrow> FdmLinearOpIterator \<Rightarrow> real \<Rightarrow> AvgValue" where
  "avgInnerValueCalc SimpsonIntegral c iter t =
     (let a = cell_lower c iter;
          b = cell_upper c iter;
          f = log_payoff c
      in case SimpsonIntegral (simpson_accuracy c a b) 8 f a b of
           Inr v \<Rightarrow> (if b - a = 0 then NotFinite else Finite (v / (b - a)))
         | Inl e \<Rightarrow> Finite (FdmLogInnerValue_innerValue c iter t))"

text \<open>
  The loop of \<open>avgInnerValue\<close> over the layout: the state is the pair of the
  \<open>initialized\<close> flags and the table.
\<close>

fun fill_cache ::
  "integrator \<Rightarrow> FdmLogInnerValue \<Rightarrow> real \<Rightarrow> FdmLinearOpIterator list \<Rightarrow>
   bool list \<times> AvgValue list \<Rightarrow> bool list \<times> AvgValue list" where
  "fill_cache S c t [] st = st"
| "fill_cache S c t (iter0 # rest) (initialized, vals) =
     (let xn = coordinates iter0 ! direction c
      in if \<not> initialized ! xn
         then fill_cache S c t rest
                (initialized[xn := True], vals[xn := avgInnerValueCalc S c iter0 t])
         else fill_cache S c t rest (initialized, vals))"

definition avgInnerValue ::
  "integrator \<Rightarrow> FdmLogInnerValue \<Rightarrow> FdmLinearOpIterator \<Rightarrow> real \<Rightarrow>
   AvgValue \<times> FdmLogInnerValue" where
  "avgInnerValue S c iter t =
     (let c' = (if avgInnerValues c = []
                then let n = dim (mesher c) ! direction c
                     in c\<lparr>avgInnerValues :=
                          snd (fill_cache S c t (layout_iters (mesher c))
                                 (replicate n False, replicate n (Finite 0)))\<rparr>
                else c)
      in (avgInnerValues c' ! (coordinates iter ! direction c), c'))"

text \<open>
  The reads and writes of the source are in range when the direction is an axis of the
  layout and every iterator has its coordinate on that axis below the axis size.
\<close>

definition iter_ok :: "FdmLogInnerValue \<Rightarrow> FdmLinearOpIterator \<Rightarrow> bool" where
  "iter_ok c iter \<longleftrightarrow>
     direction c < length (coordinates iter) \<and>
     coordinates iter ! direction c < dim (mesher c) ! direction c"

definition calc_ok :: "FdmLogInnerValue \<Rightarrow> bool" where
  "calc_ok c \<longleftrightarrow>
     direction c < length (dim (mesher c)) \<and>
     0 < dim (mesher c) ! direction c \<and>
     list_all (iter_ok c) (layout_iters (mesher c))"

text \<open>
  A small instance for evaluation: one axis with the three points \<open>-1, 0, 1\<close> and the
  payoff that returns the price itself. The first integrator is a midpoint rule that
  asks for 8 iterations and a positive accuracy and throws on an interval that starts
  below \<open>-1/2\<close>; the other two return the product of the length of the interval
  with its lower and with its upper bound, so that the average shows the bound the
  integration was called with.
\<close>

definition grid_iter :: "nat \<Rightarrow> FdmLinearOpIterator" where
  "grid_iter i = \<lparr>index = i, coordinates = [i]\<rparr>"

definition example_mesher :: FdmMesher where
  "example_mesher =
     \<lparr>dim = [3], layout_iters = [grid_iter 0, grid_iter 1, grid_iter 2],
      location = (\<lambda>it d. real (index it) - 1),
      dplus = (\<lambda>it d. 1), dminus = (\<lambda>it d. 1)\<rparr>"

definition example_calculator :: FdmLogInnerValue where
  "example_calculator =
     \<lparr>payoff = (\<lambda>s. s), mesher = example_mesher, direction = 0, avgInnerValues = []\<rparr>"

definition midpoint_integrator :: integrator where
  "midpoint_integrator acc n f a b =
     (if n \<noteq> 8 \<or> acc \<le> 0 \<or> a < - (1 / 2)
      then Inl (QlError ''max number of iterations reached'')
      else Inr ((b - a) * f ((a + b) / 2)))"

definition lower_bound_probe :: integrator where
  "lower_bound_probe acc n f a b = Inr ((b - a) * a)"

definition upper_bound_probe :: integrator where
  "upper_bound_probe acc n f a b = Inr ((b - a) * b)"

section \<open>Axis meshers\<close>

text \<open>
  Modelled from the spec: the axis mesher classes are used by the engines and the tests
  (\<open>Uniform1dMesher\<close>, \<open>Concentrating1dMesher\<close>, \<open>Predefined1dMesher\<close>) and defined in
  the meshers directory. By the specification an axis mesher is the ordered sequence of
  its locations, immutable after construction.
\<close>

record Fdm1dMesher =
  locations :: "real list"

text \<open>
  Modelled from the spec: the invariant of an axis mesher, at least three points and
  strictly increasing locations.
\<close>

definition mesher_invariant :: "real list \<Rightarrow> bool" where
  "mesher_invariant xs \<longleftrightarrow> 3 \<le> length xs \<and> sorted_wrt (<) xs"

text \<open>
  Modelled from the spec: a construction whose result violates the invariant fails with
  \<open>InvalidMesherConfig\<close>.
\<close>

definition make_mesher :: "real list \<Rightarrow> error + Fdm1dMesher" where
  "make_mesher xs =
     (if mesher_invariant xs then Inr \<lparr>locations = xs\<rparr> else Inl InvalidMesherConfig)"

text \<open>
  Modelled from the spec: the forward and the backward spacing at a grid index. The
  specification calls them half the distance to the neighbour and, in the same sentence,
  equal to the full neighbour distance at interior points; \<open>avgInnerValueCalc\<close> halves
  them itself to reach the middle between two points, so they are the full distance
  here. At the first point there is no backward spacing and at the last no forward one
  (\<open>None\<close>).
\<close>

definition Fdm1dMesher_dplus :: "Fdm1dMesher \<Rightarrow> nat \<Rightarrow> real option" where
  "Fdm1dMesher_dplus m i =
     (if i + 1 < length (locations m)
      then Some (locations m ! (i + 1) - locations m ! i) else None)"

text \<open>
  Modelled from the spec: the backward spacing, the distance to the previous point.
\<close>

definition Fdm1dMesher_dminus :: "Fdm1dMesher \<Rightarrow> nat \<Rightarrow> real option" where
  "Fdm1dMesher_dminus m i =
     (if 0 < i \<and> i < length (locations m)
      then Some (locations m ! i - locations m ! (i - 1)) else None)"

text \<open>
  Modelled from the spec: uniform spacing between two bounds.
\<close>

definition uniform_locations :: "real \<Rightarrow> real \<Rightarrow> nat \<Rightarrow> real list" where
  "uniform_locations xstart xend n =
     map (\<lambda>i. xstart + real i * ((xend - xstart) / real (n - 1))) [0 ..< n]"

text \<open>
  Modelled from the spec: the concentrating policy places its points by a stretching
  around the critical points, each a triple of the point, its density and a flag as the
  tests pass them. The specification does not give the stretching; it is a parameter
  that returns the locations.
\<close>

type_synonym stretching = "(real \<times> real \<times> bool) list \<Rightarrow> real \<Rightarrow> real \<Rightarrow> nat \<Rightarrow> real list"

text \<open>
  Modelled from the spec: the construction policies, each with its parameters: uniform
  between two bounds, concentrated around critical points, and the predefined locations
  the storage engine passes.
\<close>

datatype MesherConfig =
    Uniform1dMesher real real nat
  | Concentrating1dMesher real real nat "(real \<times> real \<times> bool) list"
  | Predefined1dMesher "real list"

text \<open>
  Modelled from the spec: construction under each policy. The concentrating policy
  rejects fewer than three points, critical points that are not increasing and a
  density that is not positive; every policy ends in the check of the invariant.
\<close>

fun construct :: "stretching \<Rightarrow> MesherConfig \<Rightarrow> error + Fdm1dMesher" where
  "construct stretch (Uniform1dMesher xstart xend n) = make_mesher (uniform_locations xstart xend n)"
| "construct stretch (Concentrating1dMesher xstart xend n cPoints) =
     (if n < 3 \<or> \<not> sorted_wrt (<) (map fst cPoints) \<or> list_ex (\<lambda>cp. fst (snd cp) \<le> 0) cPoints
      then Inl InvalidMesherConfig
      else make_mesher (stretch cPoints xstart xend n))"
| "construct stretch (Predefined1dMesher xs) = make_mesher xs"

text \<open>
  Modelled from the spec: the parameters that violate the invariant, per policy.
\<close>

fun violates :: "MesherConfig \<Rightarrow> bool" where
  "violates (Uniform1dMesher xstart xend n) \<longleftrightarrow> n < 3 \<or> xend \<le> xstart"
| "violates (Concentrating1dMesher xstart xend n cPoints) \<longleftrightarrow>
     n < 3 \<or> \<not> sorted_wrt (<) (map fst cPoints) \<or> list_ex (\<lambda>cp. fst (snd cp) \<le> 0) cPoints"
| "violates (Predefined1dMesher xs) \<longleftrightarrow> length xs < 3 \<or> \<not> sorted_wrt (<) xs"

section \<open>Step condition composite\<close>

text \<open>
  Modelled from the spec: the class \<open>FdmStepConditionComposite\<close> is built by the engines
  from a list of time lists and a list of step conditions and is defined in the step
  conditions directory. A step condition maps the solution vector and a time to the
  mutated vector.
\<close>

type_synonym 'a StepCondition = "'a \<Rightarrow> real \<Rightarrow> 'a"

text \<open>
  Modelled from the spec: the merge of the event-time lists into one ascending sequence
  without duplicates, one time after the other.
\<close>

fun insert_time :: "real \<Rightarrow> real list \<Rightarrow> real list" where
  "insert_time t [] = [t]"
| "insert_time t (x # xs) =
     (if t < x then t # x # xs
      else if t = x then x # xs
      else x # insert_time t xs)"

text \<open>
  Modelled from the spec: all lists are merged into the empty sequence in turn.
\<close>

definition merge_times :: "real list list \<Rightarrow> real list" where
  "merge_times tss = foldl (\<lambda>acc ts. foldl (\<lambda>acc t. insert_time t acc) acc ts) [] tss"

text \<open>
  Modelled from the spec: the composite holds the merged trigger times with, for each
  time, the ordered subset of conditions to apply.
\<close>

record 'a FdmStepConditionComposite =
  stoppingTimes :: "real list"
  schedule :: "(real \<times> 'a StepCondition list) list"

text \<open>
  Modelled from the spec: a condition is registered with its own event times, as the
  engines construct each one; the conditions registered for a time keep the order of
  registration.
\<close>

definition registered_at :: "(real list \<times> 'a StepCondition) list \<Rightarrow> real \<Rightarrow> 'a StepCondition list" where
  "registered_at regs t = map snd (filter (\<lambda>r. t \<in> set (fst r)) regs)"

text \<open>
  Modelled from the spec: construction from the time lists and the conditions.
\<close>

definition FdmStepConditionComposite_make ::
  "real list list \<Rightarrow> (real list \<times> 'a StepCondition) list \<Rightarrow> 'a FdmStepConditionComposite" where
  "FdmStepConditionComposite_make timeLists conditions =
     (let ts = merge_times timeLists
      in \<lparr>stoppingTimes = ts, schedule = map (\<lambda>t. (t, registered_at conditions t)) ts\<rparr>)"

text \<open>
  Modelled from the spec: at a merged time all conditions of that time are applied to
  the vector, one after the other; at any other time the vector is left as it is.
\<close>

definition applyTo :: "'a FdmStepConditionComposite \<Rightarrow> 'a \<Rightarrow> real \<Rightarrow> 'a" where
  "applyTo composite a t =
     (case map_of (schedule composite) t of
        None \<Rightarrow> a
      | Some cs \<Rightarrow> foldl (\<lambda>a c. c a t) a cs)"

text \<open>
  Two conditions that share the time \<open>1/2\<close>: the first adds 1, the second doubles.
\<close>

definition example_times :: "real list list" where
  "example_times = [[1, 1/2], [1/2, 2, 1/2]]"

definition example_conditions :: "(real list \<times> real StepCondition) list" where
  "example_conditions = [([1, 1/2], (\<lambda>a t. a + 1)), ([1/2, 2, 1/2], (\<lambda>a t. a * 2))]"

section \<open>Solver\<close>

text \<open>
  Modelled from the spec: the scheme descriptions the engines and the tests name
  (\<open>FdmSchemeDesc::Hundsdorfer()\<close>, \<open>Douglas()\<close>, ...) as a closed set of tags.
\<close>

datatype FdmSchemeType =
    Hundsdorfer | Douglas | CraigSneyd | ModifiedCraigSneyd | ModifiedHundsdorfer
  | ImplicitEuler | ExplicitEuler

text \<open>
  Modelled from the spec: of the solver description the engines fill
  (\<open>{mesher, boundaries, conditions, calculator, maturity, tGrid, dampingSteps}\<close>), the
  fields that decide the time stepping: the target maturity, the total step count and
  the damping-step count. Mesher, boundary conditions and operator act through the
  stepping function below, the calculator through the initial vector.
\<close>

record 'a FdmSolverDesc =
  condition :: "'a FdmStepConditionComposite"
  maturity :: real
  timeSteps :: nat
  dampingSteps :: nat

text \<open>
  Modelled from the spec: \<open>[0, maturity]\<close> sampled uniformly at the requested step count,
  the points \<open>i * maturity / n\<close> for \<open>i\<close> from 0 to \<open>n\<close>. With a step count of 0 there is
  no point between the two ends of the interval, and the sampling is the two ends.
\<close>

definition uniform_grid :: "real \<Rightarrow> nat \<Rightarrow> real list" where
  "uniform_grid T n =
     (if n = 0 then [0, T] else map (\<lambda>i. real i * (T / real n)) [0 ..< n + 1])"

text \<open>
  Modelled from the spec: the full time grid is the union of the uniform sampling and
  every trigger time of the composite, ascending.
\<close>

definition full_time_grid :: "'a FdmSolverDesc \<Rightarrow> real list" where
  "full_time_grid desc =
     merge_times [uniform_grid (maturity desc) (timeSteps desc),
                  stoppingTimes (condition desc)]"

text \<open>
  Modelled from the spec: a solve covers \<open>[0, maturity]\<close>, and a trigger time outside of it
  leaves the solution as it is without it. The evolution goes over the times of the
  full grid that lie in \<open>[0, maturity]\<close>.
\<close>

definition time_grid :: "'a FdmSolverDesc \<Rightarrow> real list" where
  "time_grid desc = filter (\<lambda>t. 0 \<le> t \<and> t \<le> maturity desc) (full_time_grid desc)"

text \<open>
  Modelled from the spec: evolution goes increment by increment, backward from the last
  grid time for pricing and forward from the first for a density.
\<close>

datatype Direction = Backward | Forward

text \<open>
  Modelled from the spec: the increments between neighbouring grid times, in the order
  of the evolution, each as the pair of its start and the time it reaches.
\<close>

definition increments :: "Direction \<Rightarrow> real list \<Rightarrow> (real \<times> real) list" where
  "increments dir grid =
     (case dir of
        Backward \<Rightarrow> zip (rev grid) (tl (rev grid))
      | Forward \<Rightarrow> zip grid (tl grid))"

text \<open>
  Modelled from the spec: the initial run of damping steps uses Implicit Euler in place
  of the requested scheme. The damping steps are a prefix of the steps of the solve, of
  which the description holds the total count.
\<close>

fun scheme_plan ::
  "nat \<Rightarrow> FdmSchemeType \<Rightarrow> (real \<times> real) list \<Rightarrow> (FdmSchemeType \<times> real \<times> real) list" where
  "scheme_plan d s [] = []"
| "scheme_plan d s (inc # incs) =
     (if 0 < d then (ImplicitEuler, inc) # scheme_plan (d - 1) s incs
      else (s, inc) # scheme_plan d s incs)"

text \<open>
  Modelled from the spec: one step of a scheme over an increment, on the solution
  vector. The schemes are defined in the schemes directory; a step can fail
  (\<open>SingularSystem\<close>). It is a parameter.
\<close>

type_synonym 'a stepper = "FdmSchemeType \<Rightarrow> real \<Rightarrow> real \<Rightarrow> 'a \<Rightarrow> error + 'a"

text \<open>
  Modelled from the spec: the step conditions due at the time an increment reaches are
  applied right after the increment when pricing and right before it for a density.
\<close>

definition before_step :: "Direction \<Rightarrow> 'a FdmStepConditionComposite \<Rightarrow> 'a \<Rightarrow> real \<Rightarrow> 'a" where
  "before_step dir cond u t1 = (case dir of Backward \<Rightarrow> u | Forward \<Rightarrow> applyTo cond u t1)"

text \<open>
  Modelled from the spec: the conditions applied after an increment.
\<close>

definition after_step :: "Direction \<Rightarrow> 'a FdmStepConditionComposite \<Rightarrow> 'a \<Rightarrow> real \<Rightarrow> 'a" where
  "after_step dir cond u t1 = (case dir of Backward \<Rightarrow> applyTo cond u t1 | Forward \<Rightarrow> u)"

text \<open>
  Modelled from the spec: the scheme is called once per increment; a failure ends the
  solve with that error. The first component of the result lists the calls made.
\<close>

fun run_steps ::
  "'a stepper \<Rightarrow> Direction \<Rightarrow> 'a FdmStepConditionComposite \<Rightarrow>
   (FdmSchemeType \<times> real \<times> real) list \<Rightarrow> 'a \<Rightarrow>
   (FdmSchemeType \<times> real \<times> real) list \<times> (error + 'a)" where
  "run_steps step dir cond [] u = ([], Inr u)"
| "run_steps step dir cond ((s, t0, t1) # rest) u =
     (case step s t0 t1 (before_step dir cond u t1) of
        Inl e \<Rightarrow> ([(s, t0, t1)], Inl e)
      | Inr u' \<Rightarrow>
          (let (trace, r) = run_steps step dir cond rest (after_step dir cond u' t1)
           in ((s, t0, t1) # trace, r)))"


text \<open>
  Modelled from the spec: \<open>evolve()\<close> over the time grid.
\<close>

definition evolve ::
  "'a stepper \<Rightarrow> Direction \<Rightarrow> 'a FdmSolverDesc \<Rightarrow> FdmSchemeType \<Rightarrow> 'a \<Rightarrow>
   (FdmSchemeType \<times> real \<times> real) list \<times> (error + 'a)" where
  "evolve step dir desc scheme u0 =
     run_steps step dir (condition desc)
       (scheme_plan (dampingSteps desc) scheme (increments dir (time_grid desc))) u0"


text \<open>
  Modelled from the spec: the solver before a solve, after a solve with its solution
  array, and after a failed solve.
\<close>

datatype 'a SolverState = Unsolved | Solved 'a | Failed

text \<open>
  Modelled from the spec: the solver holds its description, the scheme, the direction
  of the evolution, the initial vector and its state.
\<close>

record 'a Solver =
  solverDesc :: "'a FdmSolverDesc"
  schemeDesc :: FdmSchemeType
  mode :: Direction
  initialValues :: 'a
  solverState :: "'a SolverState"

text \<open>
  Modelled from the spec: a failed solve leaves the solver in the state \<open>Failed\<close> and
  hands the error to the caller.
\<close>

definition Solver_evolve :: "'a stepper \<Rightarrow> 'a Solver \<Rightarrow> (error + unit) \<times> 'a Solver" where
  "Solver_evolve step s =
     (case snd (evolve step (mode s) (solverDesc s) (schemeDesc s) (initialValues s)) of
        Inl e \<Rightarrow> (Inl e, s\<lparr>solverState := Failed\<rparr>)
      | Inr u \<Rightarrow> (Inr (), s\<lparr>solverState := Solved u\<rparr>))"

text \<open>
  Modelled from the spec: the queries interpolate the solution array at a point; the
  interpolations are parameters.
\<close>

record ('a, 'p) Interpolation =
  value_of :: "'a \<Rightarrow> 'p \<Rightarrow> real"
  delta_of :: "'a \<Rightarrow> 'p \<Rightarrow> real"
  gamma_of :: "'a \<Rightarrow> 'p \<Rightarrow> real"
  theta_of :: "'a \<Rightarrow> 'p \<Rightarrow> real"

text \<open>
  Modelled from the spec: a query without a solution array fails with \<open>StaleQuery\<close>.
\<close>

definition query :: "('a \<Rightarrow> 'p \<Rightarrow> real) \<Rightarrow> 'a Solver \<Rightarrow> 'p \<Rightarrow> error + real" where
  "query f s x =
     (case solverState s of
        Solved u \<Rightarrow> Inr (f u x)
      | Unsolved \<Rightarrow> Inl StaleQuery
      | Failed \<Rightarrow> Inl StaleQuery)"

text \<open>
  Modelled from the spec: the interpolated value of the solution.
\<close>

definition valueAt :: "('a, 'p) Interpolation \<Rightarrow> 'a Solver \<Rightarrow> 'p \<Rightarrow> error + real" where
  "valueAt I s x = query (value_of I) s x"

text \<open>
  Modelled from the spec: the first difference along the first axis.
\<close>

definition deltaAt :: "('a, 'p) Interpolation \<Rightarrow> 'a Solver \<Rightarrow> 'p \<Rightarrow> error + real" where
  "deltaAt I s x = query (delta_of I) s x"

text \<open>
  Modelled from the spec: the second difference along the first axis.
\<close>

definition gammaAt :: "('a, 'p) Interpolation \<Rightarrow> 'a Solver \<Rightarrow> 'p \<Rightarrow> error + real" where
  "gammaAt I s x = query (gamma_of I) s x"

text \<open>
  Modelled from the spec: the difference in time.
\<close>

definition thetaAt :: "('a, 'p) Interpolation \<Rightarrow> 'a Solver \<Rightarrow> 'p \<Rightarrow> error + real" where
  "thetaAt I s x = query (theta_of I) s x"

text \<open>
  An instance: maturity 1 in two steps, one damping step, a condition at \<open>1/4\<close> that adds
  1 and a condition at 2, after the maturity, that multiplies by 10. The first stepping
  halves the vector under Implicit Euler, takes the length of the increment off it
  under Douglas and is singular otherwise; the second is singular for every scheme but
  Implicit Euler.
\<close>

definition example_desc :: "real FdmSolverDesc" where
  "example_desc =
     \<lparr>condition = FdmStepConditionComposite_make [[1/4], [2]]
                    [([1/4], (\<lambda>a t. a + 1)), ([2], (\<lambda>a t. a * 10))],
      maturity = 1, timeSteps = 2, dampingSteps = 1\<rparr>"

definition example_solver :: "real Solver" where
  "example_solver =
     \<lparr>solverDesc = example_desc, schemeDesc = Douglas, mode = Backward, initialValues = 3,
      solverState = Unsolved\<rparr>"


definition singular_stepper :: "real stepper" where
  "singular_stepper sch t0 t1 u =
     (if sch = ImplicitEuler then Inr (u / 2) else Inl SingularSystem)"

definition example_interpolation :: "(real, real) Interpolation" where
  "example_interpolation =
     \<lparr>value_of = (\<lambda>u x. u), delta_of = (\<lambda>u x. 0), gamma_of = (\<lambda>u x. 0),
      theta_of = (\<lambda>u x. 0)\<rparr>"

section \<open>The rebate engine attaches one Dirichlet condition\<close>

lemma rebate_boundaries_down:
  "isDown (barrierType args) \<Longrightarrow>
   rebate_boundaries args = [FdmDirichletBoundary (rebate args) 0 Lower]"
  by (cases "barrierType args") (simp_all add: rebate_boundaries_def isDown_def isUp_def)

lemma rebate_boundaries_up:
  "isUp (barrierType args) \<Longrightarrow>
   rebate_boundaries args = [FdmDirichletBoundary (rebate args) 0 Upper]"
  by (cases "barrierType args") (simp_all add: rebate_boundaries_def isDown_def isUp_def)

text \<open>
  Claim C8. Whenever \<open>FdHestonRebateEngine::calculate\<close> reaches its solver, the boundary
  condition set is a single Dirichlet condition on axis 0 with the rebate as its value:
  on the lower edge for \<open>DownIn\<close> and \<open>DownOut\<close>, on the upper edge for \<open>UpIn\<close> and
  \<open>UpOut\<close>. Nothing else is attached.
\<close>

theorem C8_rebate_engine_boundaries:
  assumes "FdHestonRebateEngine_calculate args = Inr desc"
  shows "(barrierType args = DownIn \<or> barrierType args = DownOut \<longrightarrow>
            bcSet desc = [FdmDirichletBoundary (rebate args) 0 Lower]) \<and>
         (barrierType args = UpIn \<or> barrierType args = UpOut \<longrightarrow>
            bcSet desc = [FdmDirichletBoundary (rebate args) 0 Upper])"
proof -
  from assms have b: "bcSet desc = rebate_boundaries args"
    by (auto simp: FdHestonRebateEngine_calculate_def Let_def split: if_splits)
  show ?thesis
    using rebate_boundaries_down [of args] rebate_boundaries_up [of args]
    by (simp add: b isDown_def isUp_def)
qed

theorem C8_rebate_engine_boundaries_witness:
  "FdHestonRebateEngine_calculate
     \<lparr>barrierType = DownOut, barrier = 80, rebate = 3, exerciseType = European\<rparr>
     = Inr \<lparr>xMin = Some (ln 80), xMax = None,
            bcSet = [FdmDirichletBoundary 3 0 Lower]\<rparr> \<and>
   FdHestonRebateEngine_calculate
     \<lparr>barrierType = UpIn, barrier = 120, rebate = 5, exerciseType = European\<rparr>
     = Inr \<lparr>xMin = None, xMax = Some (ln 120),
            bcSet = [FdmDirichletBoundary 5 0 Upper]\<rparr>"
proof -
  let ?down = "\<lparr>barrierType = DownOut, barrier = 80, rebate = 3, exerciseType = European\<rparr>"
  let ?up = "\<lparr>barrierType = UpIn, barrier = 120, rebate = 5, exerciseType = European\<rparr>"
  let ?ddesc = "\<lparr>xMin = Some (ln 80), xMax = None, bcSet = rebate_boundaries ?down\<rparr>"
  let ?udesc = "\<lparr>xMin = None, xMax = Some (ln 120), bcSet = rebate_boundaries ?up\<rparr>"
  have d: "FdHestonRebateEngine_calculate ?down = Inr ?ddesc"
    by (simp add: FdHestonRebateEngine_calculate_def isDown_def isUp_def)
  have u: "FdHestonRebateEngine_calculate ?up = Inr ?udesc"
    by (simp add: FdHestonRebateEngine_calculate_def isDown_def isUp_def)
  from C8_rebate_engine_boundaries [OF d]
  have "rebate_boundaries ?down = [FdmDirichletBoundary 3 0 Lower]" by simp
  moreover from C8_rebate_engine_boundaries [OF u]
  have "rebate_boundaries ?up = [FdmDirichletBoundary 5 0 Upper]" by simp
  ultimately show ?thesis using d u by simp
qed

section \<open>The basket calculator does not average\<close>

text \<open>
  Claim C9. For every iterator and every time, \<open>FdmLogBasketInnerValue::avgInnerValue\<close>
  returns the value of \<open>FdmLogBasketInnerValue::innerValue\<close> at the same arguments: the
  payoff of the exponentials of the point's locations, with no averaging over the cell.
\<close>

theorem C9_basket_avg_is_inner:
  "FdmLogBasketInnerValue_avgInnerValue c iter t = FdmLogBasketInnerValue_innerValue c iter t \<and>
   FdmLogBasketInnerValue_avgInnerValue c iter t =
     basket_payoff c (map (\<lambda>i. exp (location (basket_mesher c) iter i))
                          [0 ..< length (dim (basket_mesher c))])"
  by (simp add: FdmLogBasketInnerValue_avgInnerValue_def FdmLogBasketInnerValue_innerValue_def)

section \<open>The cache of \<open>FdmLogInnerValue\<close>\<close>

lemma fill_cache_spec:
  assumes "length ini = n" "length vals = n"
    and "list_all (\<lambda>it. coordinates it ! direction c < n) its"
  shows "length (snd (fill_cache S c t its (ini, vals))) = n \<and>
         (\<forall>xn<n. snd (fill_cache S c t its (ini, vals)) ! xn =
            (if ini ! xn then vals ! xn
             else case find (\<lambda>it. coordinates it ! direction c = xn) its of
                    None \<Rightarrow> vals ! xn
                  | Some it \<Rightarrow> avgInnerValueCalc S c it t))"
  using assms
proof (induction its arbitrary: ini vals)
  case Nil
  then show ?case by simp
next
  case (Cons iter0 rest)
  let ?xn = "coordinates iter0 ! direction c"
  from Cons.prems have xn: "?xn < n" and rest: "list_all (\<lambda>it. coordinates it ! direction c < n) rest"
    by simp_all
  show ?case
  proof (cases "ini ! ?xn")
    case True
    with Cons.IH [OF Cons.prems(1) Cons.prems(2) rest] show ?thesis
      by (auto simp: Let_def)
  next
    case False
    have l1: "length (ini[?xn := True]) = n" using Cons.prems by simp
    have l2: "length (vals[?xn := avgInnerValueCalc S c iter0 t]) = n" using Cons.prems by simp
    from Cons.IH [OF l1 l2 rest] False xn Cons.prems(1,2) show ?thesis
      by (auto simp: Let_def nth_list_update split: option.splits)
  qed
qed

lemma avgInnerValue_fresh:
  assumes "avgInnerValues c = []"
  shows "snd (avgInnerValue S c iter t) =
           c\<lparr>avgInnerValues :=
                snd (fill_cache S c t (layout_iters (mesher c))
                       (replicate (dim (mesher c) ! direction c) False,
                        replicate (dim (mesher c) ! direction c) (Finite 0)))\<rparr>"
  using assms by (simp add: avgInnerValue_def Let_def)

lemma calc_ok_iters:
  "calc_ok c \<Longrightarrow>
   list_all (\<lambda>it. coordinates it ! direction c < dim (mesher c) ! direction c)
     (layout_iters (mesher c))"
  by (simp add: calc_ok_def iter_ok_def list_all_iff)

lemma log_payoff_fun: "log_payoff c = (\<lambda>x. payoff c (exp x))"
  by (rule ext) (simp add: log_payoff_def)


lemma cell_lower_explicit:
  "cell_lower c it =
      (if 0 < coordinates it ! direction c
       then location (mesher c) it (direction c) - dminus (mesher c) it (direction c) / 2
       else location (mesher c) it (direction c))"
  by (simp add: cell_lower_def Let_def)

lemma cell_upper_explicit:
  assumes "0 < dim (mesher c) ! direction c"
  shows "cell_upper c it =
      (if coordinates it ! direction c + 1 < dim (mesher c) ! direction c
       then location (mesher c) it (direction c) + dplus (mesher c) it (direction c) / 2
       else location (mesher c) it (direction c))"
proof -
  have "size_pred (dim (mesher c) ! direction c) = dim (mesher c) ! direction c - 1"
    using assms by (simp add: size_pred_def)
  moreover have "coordinates it ! direction c < dim (mesher c) ! direction c - 1 \<longleftrightarrow>
                 coordinates it ! direction c + 1 < dim (mesher c) ! direction c"
    by arith
  ultimately show ?thesis by (simp only: cell_upper_def Let_def)
qed

lemma avgInnerValueCalc_cells:
  "avgInnerValueCalc S c it t =
     (case S (if payoff c (exp (cell_lower c it)) \<noteq> 0 \<or> payoff c (exp (cell_upper c it)) \<noteq> 0
              then (payoff c (exp (cell_lower c it)) + payoff c (exp (cell_upper c it))) * (5 / 100000)
              else 1 / 10000)
             8 (\<lambda>x. payoff c (exp x)) (cell_lower c it) (cell_upper c it) of
        Inr v \<Rightarrow> if cell_upper c it = cell_lower c it then NotFinite
                 else Finite (v / (cell_upper c it - cell_lower c it))
      | Inl e \<Rightarrow> Finite (payoff c (exp (location (mesher c) it (direction c)))))"
  unfolding avgInnerValueCalc_def Let_def simpson_accuracy_def log_payoff_fun
    FdmLogInnerValue_innerValue_def
  by (simp split: sum.splits)


lemma avgInnerValueCalc_explicit:
  assumes "0 < dim (mesher c) ! direction c"
  shows "let n = dim (mesher c) ! direction c;
             coord = coordinates it ! direction c;
             loc = location (mesher c) it (direction c);
             a = (if 0 < coord then loc - dminus (mesher c) it (direction c) / 2 else loc);
             b = (if coord + 1 < n then loc + dplus (mesher c) it (direction c) / 2 else loc);
             f = (\<lambda>x. payoff c (exp x));
             acc = (if f a \<noteq> 0 \<or> f b \<noteq> 0 then (f a + f b) * (5 / 100000) else 1 / 10000)
         in avgInnerValueCalc S c it t =
              (case S acc 8 f a b of
                 Inr v \<Rightarrow> if b = a then NotFinite else Finite (v / (b - a))
               | Inl e \<Rightarrow> Finite (payoff c (exp loc)))"
  unfolding Let_def
  by (simp only: avgInnerValueCalc_cells cell_lower_explicit cell_upper_explicit [OF assms])


text \<open>
  Claim C10, as amended. On a new \<open>FdmLogInnerValue\<close> the first call of \<open>avgInnerValue\<close>
  fills the table with one entry per coordinate along the direction, each computed by
  \<open>avgInnerValueCalc\<close> with the time of that call at the first layout point having the
  coordinate, and returns the entry of the iterator's coordinate. Every later call, with
  any iterator and any time, returns the stored entry and leaves the object as it is.
  \<open>avgInnerValueCalc\<close> integrates the payoff of the exponential from \<open>a\<close> to \<open>b\<close> with 8
  iterations and the accuracy of the source, where \<open>a\<close> is \<open>loc - dminus/2\<close>, or \<open>loc\<close> at
  the first coordinate, and \<open>b\<close> is \<open>loc + dplus/2\<close>, or \<open>loc\<close> at the last coordinate.
  When the integration returns, the entry is its value divided by \<open>b - a\<close> (not a finite
  number when \<open>a = b\<close>); when it throws, the entry is the point value
  \<open>payoff(exp(loc))\<close>.
\<close>

theorem C10_log_inner_value_cache:
  assumes ok: "calc_ok c" and fresh: "avgInnerValues c = []"
  shows "let c1 = snd (avgInnerValue S c iter t);
             n = dim (mesher c) ! direction c
         in length (avgInnerValues c1) = n \<and>
            (\<forall>xn<n. avgInnerValues c1 ! xn =
               (case find (\<lambda>it. coordinates it ! direction c = xn) (layout_iters (mesher c)) of
                  Some it \<Rightarrow> avgInnerValueCalc S c it t
                | None \<Rightarrow> Finite 0)) \<and>
            fst (avgInnerValue S c iter t) = avgInnerValues c1 ! (coordinates iter ! direction c) \<and>
            (\<forall>iter' t'. avgInnerValue S c1 iter' t' =
               (avgInnerValues c1 ! (coordinates iter' ! direction c), c1)) \<and>
            (\<forall>it. let coord = coordinates it ! direction c;
                      loc = location (mesher c) it (direction c);
                      a = (if 0 < coord then loc - dminus (mesher c) it (direction c) / 2
                           else loc);
                      b = (if coord + 1 < n then loc + dplus (mesher c) it (direction c) / 2
                           else loc);
                      f = (\<lambda>x. payoff c (exp x));
                      acc = (if f a \<noteq> 0 \<or> f b \<noteq> 0 then (f a + f b) * (5 / 100000)
                             else 1 / 10000)
                  in avgInnerValueCalc S c it t =
                       (case S acc 8 f a b of
                          Inr v \<Rightarrow> if b = a then NotFinite else Finite (v / (b - a))
                        | Inl e \<Rightarrow> Finite (payoff c (exp loc))))"
proof -
  let ?n = "dim (mesher c) ! direction c"
  let ?tab = "snd (fill_cache S c t (layout_iters (mesher c))
                     (replicate ?n False, replicate ?n (Finite 0)))"
  let ?c1 = "c\<lparr>avgInnerValues := ?tab\<rparr>"
  have c1: "snd (avgInnerValue S c iter t) = ?c1"
    by (rule avgInnerValue_fresh [OF fresh])
  have sel: "avgInnerValues ?c1 = ?tab" by simp
  have fc: "length ?tab = ?n \<and>
      (\<forall>xn<?n. ?tab ! xn =
         (if replicate ?n False ! xn then replicate ?n (Finite 0) ! xn
          else case find (\<lambda>it. coordinates it ! direction c = xn) (layout_iters (mesher c)) of
                 None \<Rightarrow> replicate ?n (Finite 0) ! xn
               | Some it \<Rightarrow> avgInnerValueCalc S c it t))"
    by (rule fill_cache_spec) (simp_all add: calc_ok_iters [OF ok])
  have len: "length ?tab = ?n" using fc by simp
  have tab: "\<forall>xn<?n. ?tab ! xn =
               (case find (\<lambda>it. coordinates it ! direction c = xn) (layout_iters (mesher c)) of
                  Some it \<Rightarrow> avgInnerValueCalc S c it t
                | None \<Rightarrow> Finite 0)"
    using fc by (auto split: option.splits)
  have npos: "0 < ?n" using ok by (simp add: calc_ok_def)
  have nonempty: "?tab \<noteq> []" using len npos by auto
  have first: "fst (avgInnerValue S c iter t) = ?tab ! (coordinates iter ! direction c)"
    using fresh by (simp add: avgInnerValue_def Let_def)
  have later: "\<forall>iter' t'. avgInnerValue S ?c1 iter' t' =
                 (?tab ! (coordinates iter' ! direction c), ?c1)"
    using nonempty by (simp add: avgInnerValue_def Let_def)
  note calc = avgInnerValueCalc_explicit [OF npos, of _ S t, unfolded Let_def]
  show ?thesis
    unfolding Let_def c1 sel
    by (intro conjI) (rule len tab first later | (rule allI, rule calc))+
qed


lemma example_ok: "calc_ok example_calculator"
  by (simp add: calc_ok_def iter_ok_def example_calculator_def example_mesher_def grid_iter_def)

lemma example_cells:
  "cell_lower example_calculator (grid_iter i) = (if 0 < i then real i - 3 / 2 else real i - 1)"
  "cell_upper example_calculator (grid_iter i) = (if i < 2 then real i - 1 / 2 else real i - 1)"
  by (auto simp: cell_lower_def cell_upper_def size_pred_def example_calculator_def
      example_mesher_def grid_iter_def)

lemma example_payoff: "payoff example_calculator = (\<lambda>s. s)"
  and example_location:
    "location (mesher example_calculator) (grid_iter i) (direction example_calculator)
       = real i - 1"
  and example_spacing:
    "dminus (mesher example_calculator) (grid_iter i) (direction example_calculator) = 1"
    "dplus (mesher example_calculator) (grid_iter i) (direction example_calculator) = 1"
  by (simp_all add: example_calculator_def example_mesher_def grid_iter_def)

lemma example_calc:
  "avgInnerValueCalc midpoint_integrator example_calculator (grid_iter 0) t = Finite (exp (- 1))"
  "avgInnerValueCalc midpoint_integrator example_calculator (grid_iter 1) t = Finite 1"
  "avgInnerValueCalc midpoint_integrator example_calculator (grid_iter 2) t = Finite (exp (3 / 4))"
  by (simp_all add: avgInnerValueCalc_cells example_cells example_payoff example_location
      midpoint_integrator_def add_pos_pos not_le)

lemma example_tab:
  "snd (avgInnerValue midpoint_integrator example_calculator (grid_iter 1) 0)
     = example_calculator \<lparr>avgInnerValues := [Finite (exp (- 1)), Finite 1, Finite (exp (3 / 4))]\<rparr>"
proof -
  have "avgInnerValues example_calculator = []" by (simp add: example_calculator_def)
  from avgInnerValue_fresh [OF this]
  have "snd (avgInnerValue midpoint_integrator example_calculator (grid_iter 1) 0) =
     example_calculator\<lparr>avgInnerValues :=
       snd (fill_cache midpoint_integrator example_calculator 0
              (layout_iters (mesher example_calculator))
              (replicate (dim (mesher example_calculator) ! direction example_calculator) False,
               replicate (dim (mesher example_calculator) ! direction example_calculator)
                 (Finite 0)))\<rparr>" .
  moreover have "layout_iters (mesher example_calculator) = [grid_iter 0, grid_iter 1, grid_iter 2]"
    and "dim (mesher example_calculator) ! direction example_calculator = 3"
    and "\<And>i. coordinates (grid_iter i) ! direction example_calculator = i"
    by (simp_all add: example_calculator_def example_mesher_def grid_iter_def)
  ultimately show ?thesis
    by (simp add: example_calc [unfolded One_nat_def numeral_2_eq_2] eval_nat_numeral)
qed

theorem C10_log_inner_value_cache_witness:
  "calc_ok example_calculator \<and> avgInnerValues example_calculator = [] \<and>
   avgInnerValues (snd (avgInnerValue midpoint_integrator example_calculator (grid_iter 1) 0))
     = [Finite (exp (- 1)), Finite 1, Finite (exp (3 / 4))] \<and>
   fst (avgInnerValue midpoint_integrator example_calculator (grid_iter 1) 0) = Finite 1 \<and>
   avgInnerValue midpoint_integrator
      (snd (avgInnerValue midpoint_integrator example_calculator (grid_iter 1) 0)) (grid_iter 2) 5
     = (Finite (exp (3 / 4)),
        snd (avgInnerValue midpoint_integrator example_calculator (grid_iter 1) 0))"
proof -
  have fresh: "avgInnerValues example_calculator = []"
    by (simp add: example_calculator_def)
  have g: "coordinates (grid_iter 1) ! direction example_calculator = 1"
          "coordinates (grid_iter 2) ! direction example_calculator = 2"
    by (simp_all add: example_calculator_def grid_iter_def)
  have tab: "avgInnerValues (snd (avgInnerValue midpoint_integrator example_calculator
               (grid_iter 1) 0)) = [Finite (exp (- 1)), Finite 1, Finite (exp (3 / 4))]"
    by (simp only: example_tab) simp
  note t = C10_log_inner_value_cache [OF example_ok fresh, of midpoint_integrator "grid_iter 1" 0,
      unfolded Let_def]
  from t have first: "fst (avgInnerValue midpoint_integrator example_calculator (grid_iter 1) 0)
      = avgInnerValues (snd (avgInnerValue midpoint_integrator example_calculator (grid_iter 1) 0))
          ! (coordinates (grid_iter 1) ! direction example_calculator)"
    by (rule conjunct1 [OF conjunct2 [OF conjunct2]])
  from t have later: "\<forall>iter' t'. avgInnerValue midpoint_integrator
        (snd (avgInnerValue midpoint_integrator example_calculator (grid_iter 1) 0)) iter' t'
      = (avgInnerValues (snd (avgInnerValue midpoint_integrator example_calculator
                               (grid_iter 1) 0)) ! (coordinates iter' ! direction example_calculator),
         snd (avgInnerValue midpoint_integrator example_calculator (grid_iter 1) 0))"
    by (rule conjunct1 [OF conjunct2 [OF conjunct2 [OF conjunct2]]])
  have f1: "fst (avgInnerValue midpoint_integrator example_calculator (grid_iter 1) 0) = Finite 1"
    by (simp only: first tab g) simp
  have l2: "avgInnerValue midpoint_integrator
      (snd (avgInnerValue midpoint_integrator example_calculator (grid_iter 1) 0)) (grid_iter 2) 5
     = (Finite (exp (3 / 4)),
        snd (avgInnerValue midpoint_integrator example_calculator (grid_iter 1) 0))"
    by (simp only: later [rule_format] tab g) simp
  show ?thesis using example_ok fresh tab f1 l2 by (intro conjI)
qed

text \<open>
  The claim as stated has the integration run over \<open>[loc - dminus/2, loc + dplus/2]\<close> at
  every coordinate. At the first coordinate of the instance the integration starts at
  the location \<open>-1\<close> itself, not at \<open>-3/2\<close>, and at the last it ends at the location
  \<open>1\<close>, not at \<open>3/2\<close>: the source leaves \<open>dminus\<close> out when \<open>coord > 0\<close> fails and
  \<open>dplus\<close> out when \<open>coord < dim-1\<close> fails.
\<close>

theorem C10_edge_interval_counterexample:
  "avgInnerValueCalc lower_bound_probe example_calculator (grid_iter 0) 0 = Finite (- 1) \<and>
   location (mesher example_calculator) (grid_iter 0) (direction example_calculator)
     - dminus (mesher example_calculator) (grid_iter 0) (direction example_calculator) / 2
     = - (3 / 2) \<and>
   avgInnerValueCalc upper_bound_probe example_calculator (grid_iter 2) 0 = Finite 1 \<and>
   location (mesher example_calculator) (grid_iter 2) (direction example_calculator)
     + dplus (mesher example_calculator) (grid_iter 2) (direction example_calculator) / 2
     = 3 / 2"
  by (simp add: avgInnerValueCalc_cells example_cells lower_bound_probe_def
      upper_bound_probe_def example_location example_spacing)

section \<open>Axis meshers: the invariant\<close>

lemma make_mesher_Inr:
  "make_mesher xs = Inr m \<Longrightarrow> locations m = xs \<and> 3 \<le> length xs \<and> sorted_wrt (<) xs"
  by (auto simp: make_mesher_def mesher_invariant_def split: if_splits)

lemma construct_Inr_invariant:
  "construct stretch cfg = Inr m \<Longrightarrow> mesher_invariant (locations m)"
  by (cases cfg) (auto simp: make_mesher_def split: if_splits)

lemma dplus_positive:
  assumes "sorted_wrt (<) (locations m)" "Fdm1dMesher_dplus m i = Some d"
  shows "0 < d"
proof -
  from assms(2) have i: "i + 1 < length (locations m)"
    and d: "d = locations m ! (i + 1) - locations m ! i"
    by (auto simp: Fdm1dMesher_dplus_def split: if_splits)
  have "locations m ! i < locations m ! (i + 1)"
    using sorted_wrt_nth_less [OF assms(1), of i "i + 1"] i by simp
  with d show ?thesis by simp
qed

lemma dminus_positive:
  assumes "sorted_wrt (<) (locations m)" "Fdm1dMesher_dminus m i = Some d"
  shows "0 < d"
proof -
  from assms(2) have i: "0 < i" "i < length (locations m)"
    and d: "d = locations m ! i - locations m ! (i - 1)"
    by (auto simp: Fdm1dMesher_dminus_def split: if_splits)
  have "locations m ! (i - 1) < locations m ! i"
    using sorted_wrt_nth_less [OF assms(1), of "i - 1" i] i by simp
  with d show ?thesis by simp
qed

lemma uniform_locations_length: "length (uniform_locations xstart xend n) = n"
  by (simp add: uniform_locations_def)

lemma uniform_locations_nth:
  "i < n \<Longrightarrow> uniform_locations xstart xend n ! i
              = xstart + real i * ((xend - xstart) / real (n - 1))"
  by (simp add: uniform_locations_def)

lemma uniform_bad_bounds:
  assumes "xend \<le> xstart"
  shows "\<not> mesher_invariant (uniform_locations xstart xend n)"
proof
  assume inv: "mesher_invariant (uniform_locations xstart xend n)"
  then have n: "3 \<le> n" and s: "sorted_wrt (<) (uniform_locations xstart xend n)"
    by (simp_all add: mesher_invariant_def uniform_locations_length)
  define h where "h = (xend - xstart) / real (n - 1)"
  have "uniform_locations xstart xend n ! 0 < uniform_locations xstart xend n ! 1"
    using sorted_wrt_nth_less [OF s, of 0 1] n by (simp add: uniform_locations_length)
  then have "xstart + real 0 * h < xstart + real 1 * h"
    using n unfolding h_def by (simp only: uniform_locations_nth [of 0 n]
        uniform_locations_nth [of 1 n]) 
  then have "0 < h" by simp
  moreover have "0 < real (n - 1)" using n by simp
  ultimately have "0 < xend - xstart" unfolding h_def by (simp add: zero_less_divide_iff)
  with assms show False by simp
qed

lemma uniform_good:
  assumes "xstart < xend" "3 \<le> n"
  shows "mesher_invariant (uniform_locations xstart xend n)"
proof -
  define h where "h = (xend - xstart) / real (n - 1)"
  have pos: "0 < h" using assms unfolding h_def by simp
  have "sorted_wrt (\<lambda>i j. xstart + real i * h < xstart + real j * h) [0 ..< n]"
    by (rule sorted_wrt_mono_rel [OF _ sorted_wrt_upt]) (use pos in simp)
  then have "sorted_wrt (<) (map (\<lambda>i. xstart + real i * h) [0 ..< n])"
    by (simp only: sorted_wrt_map)
  then show ?thesis using assms(2)
    unfolding mesher_invariant_def uniform_locations_def h_def by simp
qed

lemma violates_fails: "violates cfg \<Longrightarrow> construct stretch cfg = Inl InvalidMesherConfig"
proof (cases cfg)
  case (Uniform1dMesher xstart xend n)
  assume v: "violates cfg"
  show ?thesis
  proof (cases "n < 3")
    case True
    then show ?thesis using Uniform1dMesher
      by (simp add: make_mesher_def mesher_invariant_def uniform_locations_def)
  next
    case False
    with v Uniform1dMesher have "xend \<le> xstart" by simp
    from uniform_bad_bounds [OF this] show ?thesis using Uniform1dMesher
      by (simp add: make_mesher_def)
  qed
next
  case (Concentrating1dMesher xstart xend n cPoints)
  assume "violates cfg"
  then show ?thesis using Concentrating1dMesher by auto
next
  case (Predefined1dMesher xs)
  assume "violates cfg"
  then show ?thesis using Predefined1dMesher
    by (auto simp: make_mesher_def mesher_invariant_def)
qed

text \<open>
  Claim C5. Every axis mesher that a construction returns has at least three points,
  strictly increasing locations, and strictly positive \<open>dplus\<close> and \<open>dminus\<close> wherever
  they are defined. A construction whose parameters violate the invariant (fewer than
  three points, bounds not increasing, critical points not increasing, a density that is
  not positive) fails with \<open>InvalidMesherConfig\<close>; a uniform construction with
  increasing bounds and at least three points succeeds.
\<close>

theorem C5_mesher_invariant:
  "(construct stretch cfg = Inr m \<longrightarrow>
      3 \<le> length (locations m) \<and> sorted_wrt (<) (locations m) \<and>
      (\<forall>i d. Fdm1dMesher_dplus m i = Some d \<longrightarrow> 0 < d) \<and>
      (\<forall>i d. Fdm1dMesher_dminus m i = Some d \<longrightarrow> 0 < d)) \<and>
   (violates cfg \<longrightarrow> construct stretch cfg = Inl InvalidMesherConfig) \<and>
   (xstart < xend \<and> 3 \<le> n \<longrightarrow>
      construct stretch (Uniform1dMesher xstart xend n)
        = Inr \<lparr>locations = uniform_locations xstart xend n\<rparr>)"
proof (intro conjI impI)
  assume c: "construct stretch cfg = Inr m"
  from construct_Inr_invariant [OF c]
  show "3 \<le> length (locations m)" and s: "sorted_wrt (<) (locations m)"
    by (simp_all add: mesher_invariant_def)
  show "\<forall>i d. Fdm1dMesher_dplus m i = Some d \<longrightarrow> 0 < d"
    using dplus_positive [OF s] by blast
  show "\<forall>i d. Fdm1dMesher_dminus m i = Some d \<longrightarrow> 0 < d"
    using dminus_positive [OF s] by blast
next
  assume "violates cfg"
  then show "construct stretch cfg = Inl InvalidMesherConfig" by (rule violates_fails)
next
  assume "xstart < xend \<and> 3 \<le> n"
  then show "construct stretch (Uniform1dMesher xstart xend n)
        = Inr \<lparr>locations = uniform_locations xstart xend n\<rparr>"
    using uniform_good [of xstart xend n] by (simp add: make_mesher_def)
qed


theorem C5_mesher_invariant_witness:
  "construct (\<lambda>cps a b n. []) (Uniform1dMesher 0 2 3) = Inr \<lparr>locations = [0, 1, 2]\<rparr> \<and>
   3 \<le> length (locations \<lparr>locations = [0, 1, 2 :: real]\<rparr>) \<and>
   sorted_wrt (<) (locations \<lparr>locations = [0, 1, 2 :: real]\<rparr>) \<and>
   Fdm1dMesher_dplus \<lparr>locations = [0, 1, 2]\<rparr> 0 = Some 1 \<and> (0 :: real) < 1 \<and>
   Fdm1dMesher_dminus \<lparr>locations = [0, 1, 2]\<rparr> 2 = Some 1 \<and>
   violates (Uniform1dMesher 0 1 2) \<and>
   construct (\<lambda>cps a b n. []) (Uniform1dMesher 0 1 2) = Inl InvalidMesherConfig \<and>
   violates (Concentrating1dMesher 0 1 10 [(1/2, 0, False)]) \<and>
   construct (\<lambda>cps a b n. []) (Concentrating1dMesher 0 1 10 [(1/2, 0, False)])
     = Inl InvalidMesherConfig"
proof -
  let ?m = "\<lparr>locations = [0, 1, 2 :: real]\<rparr>"
  have u: "uniform_locations 0 2 3 = [0, 1, 2]"
    by (simp add: uniform_locations_def eval_nat_numeral)
  have d: "Fdm1dMesher_dplus ?m 0 = Some 1" "Fdm1dMesher_dminus ?m 2 = Some 1"
    by (simp_all add: Fdm1dMesher_dplus_def Fdm1dMesher_dminus_def)
  have v: "violates (Uniform1dMesher 0 1 2)"
          "violates (Concentrating1dMesher 0 1 10 [(1/2, 0, False)])"
    by simp_all
  have b: "(0 :: real) < 2 \<and> (3 :: nat) \<le> 3" by simp
  note t = C5_mesher_invariant [of "\<lambda>cps a b n. []" _ ?m 0 2 3]
  from t [of "Uniform1dMesher 0 2 3"] b u
  have c: "construct (\<lambda>cps a b n. []) (Uniform1dMesher 0 2 3) = Inr ?m" by simp
  from t [of "Uniform1dMesher 0 2 3"] c
  have inv: "3 \<le> length (locations ?m) \<and> sorted_wrt (<) (locations ?m)" by blast
  from t [of "Uniform1dMesher 0 1 2"] v(1)
  have f1: "construct (\<lambda>cps a b n. []) (Uniform1dMesher 0 1 2) = Inl InvalidMesherConfig"
    by blast
  from t [of "Concentrating1dMesher 0 1 10 [(1/2, 0, False)]"] v(2)
  have f2: "construct (\<lambda>cps a b n. []) (Concentrating1dMesher 0 1 10 [(1/2, 0, False)])
              = Inl InvalidMesherConfig"
    by blast
  show ?thesis using c inv d v f1 f2 by simp
qed

section \<open>Step condition composite: merged times and order of application\<close>

lemma set_insert_time: "set (insert_time t xs) = insert t (set xs)"
  by (induction xs) auto

lemma sorted_insert_time: "sorted_wrt (<) xs \<Longrightarrow> sorted_wrt (<) (insert_time t xs)"
  by (induction xs) (auto simp: set_insert_time)

lemma set_fold_insert:
  "set (foldl (\<lambda>acc t. insert_time t acc) acc ts) = set acc \<union> set ts"
  by (induction ts arbitrary: acc) (auto simp: set_insert_time)

lemma sorted_fold_insert:
  "sorted_wrt (<) acc \<Longrightarrow> sorted_wrt (<) (foldl (\<lambda>acc t. insert_time t acc) acc ts)"
  by (induction ts arbitrary: acc) (auto simp: sorted_insert_time)

lemma set_fold_fold_insert:
  "set (foldl (\<lambda>acc ts. foldl (\<lambda>acc t. insert_time t acc) acc ts) acc tss)
     = set acc \<union> (\<Union>ts\<in>set tss. set ts)"
  by (induction tss arbitrary: acc) (auto simp: set_fold_insert)

lemma sorted_fold_fold_insert:
  "sorted_wrt (<) acc \<Longrightarrow>
   sorted_wrt (<) (foldl (\<lambda>acc ts. foldl (\<lambda>acc t. insert_time t acc) acc ts) acc tss)"
  by (induction tss arbitrary: acc) (auto simp: sorted_fold_insert)

lemma set_merge_times: "set (merge_times tss) = (\<Union>ts\<in>set tss. set ts)"
  by (simp add: merge_times_def set_fold_fold_insert)

lemma sorted_merge_times: "sorted_wrt (<) (merge_times tss)"
  by (simp add: merge_times_def sorted_fold_fold_insert)

lemma distinct_merge_times: "distinct (merge_times tss)"
  using sorted_merge_times [of tss] strict_sorted_iff by blast

lemma map_of_schedule:
  "map_of (map (\<lambda>t. (t, f t)) ts) t = (if t \<in> set ts then Some (f t) else None)"
  by (induction ts) auto

text \<open>
  Claim C3. The trigger times of a composite built from several event-time lists are
  ascending, free of duplicates, and exactly the times of the input lists. At each of
  them the composite applies to the vector the conditions registered for that time, in
  the order of registration; at a time that is no trigger time it changes nothing.
\<close>

theorem C3_composite_merge_and_order:
  "sorted_wrt (<) (stoppingTimes (FdmStepConditionComposite_make tss conds)) \<and>
   distinct (stoppingTimes (FdmStepConditionComposite_make tss conds)) \<and>
   set (stoppingTimes (FdmStepConditionComposite_make tss conds)) = (\<Union>ts\<in>set tss. set ts) \<and>
   (\<forall>t\<in>set (stoppingTimes (FdmStepConditionComposite_make tss conds)).
      applyTo (FdmStepConditionComposite_make tss conds) a t
        = foldl (\<lambda>a c. c a t) a (map snd (filter (\<lambda>r. t \<in> set (fst r)) conds))) \<and>
   (\<forall>t. t \<notin> set (stoppingTimes (FdmStepConditionComposite_make tss conds)) \<longrightarrow>
      applyTo (FdmStepConditionComposite_make tss conds) a t = a)"
  by (simp add: FdmStepConditionComposite_make_def Let_def sorted_merge_times
      distinct_merge_times set_merge_times applyTo_def map_of_schedule registered_at_def)

lemma example_stoppingTimes:
  "stoppingTimes (FdmStepConditionComposite_make example_times example_conditions) = [1/2, 1, 2]"
  by (simp add: FdmStepConditionComposite_make_def Let_def merge_times_def example_times_def)

theorem C3_composite_merge_and_order_witness:
  "stoppingTimes (FdmStepConditionComposite_make example_times example_conditions) = [1/2, 1, 2] \<and>
   (1/2) \<in> set (stoppingTimes (FdmStepConditionComposite_make example_times example_conditions)) \<and>
   applyTo (FdmStepConditionComposite_make example_times example_conditions) 3 (1/2) = 8 \<and>
   3 \<notin> set (stoppingTimes (FdmStepConditionComposite_make example_times example_conditions)) \<and>
   applyTo (FdmStepConditionComposite_make example_times example_conditions) 3 3 = 3"
proof -
  let ?c = "FdmStepConditionComposite_make example_times example_conditions"
  have m: "(1/2) \<in> set (stoppingTimes ?c)" and n: "3 \<notin> set (stoppingTimes ?c)"
    by (simp_all add: example_stoppingTimes)
  have f: "foldl (\<lambda>a c. c a (1/2)) (3::real)
             (map snd (filter (\<lambda>r. (1/2) \<in> set (fst r)) example_conditions)) = 8"
    by (simp add: example_conditions_def)
  from C3_composite_merge_and_order [of example_times example_conditions 3] m n f
    example_stoppingTimes
  show ?thesis by auto
qed

section \<open>Solver: time grid, damping and failure\<close>

lemma scheme_plan_schemes:
  "map fst (scheme_plan d s incs)
     = replicate (min d (length incs)) ImplicitEuler @ replicate (length incs - d) s"
proof (induction incs arbitrary: d)
  case Nil
  show ?case by simp
next
  case (Cons inc incs)
  show ?case
  proof (cases d)
    case 0
    then show ?thesis using Cons.IH [of 0] by simp
  next
    case (Suc d')
    then show ?thesis using Cons.IH [of d'] by simp
  qed
qed

lemma scheme_plan_increments: "map snd (scheme_plan d s incs) = incs"
  by (induction incs arbitrary: d) auto






lemma sorted_full_time_grid: "sorted_wrt (<) (full_time_grid desc)"
  by (simp add: full_time_grid_def sorted_merge_times)

lemma set_full_time_grid:
  "set (full_time_grid desc)
     = set (uniform_grid (maturity desc) (timeSteps desc)) \<union> set (stoppingTimes (condition desc))"
  by (simp add: full_time_grid_def set_merge_times)

lemma sorted_time_grid: "sorted_wrt (<) (time_grid desc)"
  by (simp add: time_grid_def sorted_wrt_filter sorted_full_time_grid)

lemma set_time_grid:
  "set (time_grid desc) = {t \<in> set (full_time_grid desc). 0 \<le> t \<and> t \<le> maturity desc}"
  by (simp add: time_grid_def)






lemma example_full_grid: "full_time_grid example_desc = [0, 1/4, 1/2, 1, 2]"
  by (simp add: full_time_grid_def example_desc_def FdmStepConditionComposite_make_def Let_def
      merge_times_def uniform_grid_def eval_nat_numeral)

lemma example_grid: "time_grid example_desc = [0, 1/4, 1/2, 1]"
  by (simp add: time_grid_def example_full_grid) (simp add: example_desc_def)

lemma example_increments:
  "increments Backward (time_grid example_desc) = [(1, 1/2), (1/2, 1/4), (1/4, 0)]"
  by (simp add: example_grid increments_def)

lemma example_plan:
  "scheme_plan (dampingSteps example_desc) Douglas (increments Backward (time_grid example_desc))
     = [(ImplicitEuler, 1, 1/2), (Douglas, 1/2, 1/4), (Douglas, 1/4, 0)]"
  by (simp add: example_increments) (simp add: example_desc_def)

lemma example_applyTo:
  "applyTo (condition example_desc) u t
     = (if t = 1/4 then u + 1 else if t = 2 then u * 10 else u)"
  by (simp add: example_desc_def applyTo_def FdmStepConditionComposite_make_def Let_def
      merge_times_def registered_at_def)


lemma example_evolve_fail:
  "evolve singular_stepper Backward example_desc Douglas 3
     = ([(ImplicitEuler, 1, 1/2), (Douglas, 1/2, 1/4)], Inl SingularSystem)"
  by (simp add: evolve_def example_plan singular_stepper_def example_applyTo
      before_step_def after_step_def)


text \<open>
  A composite whose trigger times all lie outside \<open>[0, maturity]\<close> leaves the solve as it
  is with no step conditions at all.
\<close>

lemma applyTo_no_trigger:
  "t \<notin> set (stoppingTimes (FdmStepConditionComposite_make tss conds)) \<Longrightarrow>
   applyTo (FdmStepConditionComposite_make tss conds) u t = u"
  by (simp add: FdmStepConditionComposite_make_def Let_def applyTo_def map_of_schedule)

lemma run_steps_cong_conditions:
  assumes "\<forall>p\<in>set plan. \<forall>u. applyTo cond u (snd (snd p)) = applyTo cond' u (snd (snd p))"
  shows "run_steps step dir cond plan u = run_steps step dir cond' plan u"
  using assms
proof (induction plan arbitrary: u)
  case Nil
  show ?case by simp
next
  case (Cons p plan)
  obtain s t0 t1 where p: "p = (s, t0, t1)" by (cases p) auto
  from Cons.prems p have a: "\<And>v. applyTo cond v t1 = applyTo cond' v t1" by simp
  have b: "\<And>v. before_step dir cond v t1 = before_step dir cond' v t1"
    and c: "\<And>v. after_step dir cond v t1 = after_step dir cond' v t1"
    by (simp_all add: before_step_def after_step_def a split: Direction.splits)
  from Cons.prems have "\<forall>p\<in>set plan. \<forall>u. applyTo cond u (snd (snd p)) = applyTo cond' u (snd (snd p))"
    by simp
  from Cons.IH [OF this] show ?case by (simp add: p b c split: sum.splits)
qed

lemma in_set_tl: "t \<in> set (tl xs) \<Longrightarrow> t \<in> set xs"
  by (cases xs) auto

lemma increments_reach_grid: "(t0, t1) \<in> set (increments dir grid) \<Longrightarrow> t1 \<in> set grid"
proof (cases dir)
  case Backward
  assume "(t0, t1) \<in> set (increments dir grid)"
  then have "t1 \<in> set (tl (rev grid))"
    using Backward by (auto simp: increments_def dest: set_zip_rightD)
  then have "t1 \<in> set (rev grid)" by (rule in_set_tl)
  then show ?thesis by simp
next
  case Forward
  assume "(t0, t1) \<in> set (increments dir grid)"
  then have "t1 \<in> set (tl grid)"
    using Forward by (auto simp: increments_def dest: set_zip_rightD)
  then show ?thesis by (rule in_set_tl)
qed

lemma triggers_outside_maturity_ignored:
  assumes c: "condition desc = FdmStepConditionComposite_make tss conds"
    and out: "\<forall>t\<in>set (stoppingTimes (condition desc)). t < 0 \<or> maturity desc < t"
  shows "snd (evolve step dir desc scheme u0)
           = snd (evolve step dir (desc\<lparr>condition := FdmStepConditionComposite_make [] []\<rparr>)
                    scheme u0)"
proof -
  let ?desc' = "desc\<lparr>condition := FdmStepConditionComposite_make [] []\<rparr>"
  have e: "stoppingTimes (FdmStepConditionComposite_make [] [] :: 'a FdmStepConditionComposite) = []"
    by (simp add: FdmStepConditionComposite_make_def Let_def merge_times_def)
  have s: "set (time_grid desc) = set (time_grid ?desc')"
    using out by (auto simp: set_time_grid set_full_time_grid e)
  have g: "time_grid desc = time_grid ?desc'"
    by (rule strict_sorted_equal [OF sorted_time_grid [of ?desc'] sorted_time_grid [of desc] s])
  have "\<forall>p\<in>set (scheme_plan (dampingSteps desc) scheme (increments dir (time_grid desc))).
          \<forall>u. applyTo (condition desc) u (snd (snd p))
               = applyTo (FdmStepConditionComposite_make [] []) u (snd (snd p))"
  proof (intro ballI allI)
    fix p u
    assume "p \<in> set (scheme_plan (dampingSteps desc) scheme (increments dir (time_grid desc)))"
    then have "snd p \<in> set (map snd (scheme_plan (dampingSteps desc) scheme
                                        (increments dir (time_grid desc))))"
      by simp
    then have "snd p \<in> set (increments dir (time_grid desc))"
      by (simp only: scheme_plan_increments)
    then have "snd (snd p) \<in> set (time_grid desc)"
      using increments_reach_grid [of "fst (snd p)" "snd (snd p)" dir "time_grid desc"] by simp
    then have "0 \<le> snd (snd p) \<and> snd (snd p) \<le> maturity desc" by (simp add: set_time_grid)
    with out have "snd (snd p) \<notin> set (stoppingTimes (condition desc))" by auto
    then have "applyTo (condition desc) u (snd (snd p)) = u"
      unfolding c by (rule applyTo_no_trigger)
    moreover have "applyTo (FdmStepConditionComposite_make [] []) u (snd (snd p)) = u"
      by (rule applyTo_no_trigger) (simp add: e)
    ultimately show "applyTo (condition desc) u (snd (snd p))
               = applyTo (FdmStepConditionComposite_make [] []) u (snd (snd p))"
      by simp
  qed
  from run_steps_cong_conditions [OF this] show ?thesis
    by (simp add: evolve_def g [symmetric])
qed

lemma run_steps_fail:
  "snd (run_steps step dir cond plan u) = Inl e \<Longrightarrow>
   fst (run_steps step dir cond plan u) \<noteq> [] \<and>
   fst (run_steps step dir cond plan u) = take (length (fst (run_steps step dir cond plan u))) plan \<and>
   (\<exists>v. (case last (fst (run_steps step dir cond plan u)) of (sch, t0, t1) \<Rightarrow> step sch t0 t1 v)
          = Inl e)"
proof (induction plan arbitrary: u)
  case Nil
  then show ?case by simp
next
  case (Cons p plan)
  obtain s t0 t1 where p: "p = (s, t0, t1)" by (cases p) auto
  show ?case
  proof (cases "step s t0 t1 (before_step dir cond u t1)")
    case (Inl e')
    with Cons.prems p have "e' = e" by simp
    with Inl p show ?thesis by auto
  next
    case (Inr w)
    with Cons.prems p have "snd (run_steps step dir cond plan (after_step dir cond w t1)) = Inl e"
      by (simp add: split_beta)
    from Cons.IH [OF this] Inr p show ?thesis by (simp add: split_beta)
  qed
qed

lemma distinct_increments: "sorted_wrt (<) grid \<Longrightarrow> distinct (increments dir grid)"
proof -
  assume "sorted_wrt (<) grid"
  then have d: "distinct grid" using strict_sorted_iff by blast
  then have "distinct (rev grid)" by simp
  then show ?thesis using d by (cases dir) (simp_all add: increments_def distinct_zipI1)
qed

lemma distinct_scheme_plan: "distinct incs \<Longrightarrow> distinct (scheme_plan d s incs)"
  using distinct_map [of snd "scheme_plan d s incs"] by (simp add: scheme_plan_increments)

text \<open>
  Claim C7. When a solve fails, the solver is in the state \<open>Failed\<close> and \<open>valueAt\<close>,
  \<open>deltaAt\<close>, \<open>gammaAt\<close> and \<open>thetaAt\<close> fail with \<open>StaleQuery\<close>. The error given to the
  caller is the error of the last step called; the steps called are an initial part of
  the planned steps, each called once, so no step is tried again.
\<close>

theorem C7_failed_solve_is_stale:
  assumes "fst (Solver_evolve step s) = Inl e"
  shows "solverState (snd (Solver_evolve step s)) = Failed \<and>
         valueAt I (snd (Solver_evolve step s)) x = Inl StaleQuery \<and>
         deltaAt I (snd (Solver_evolve step s)) x = Inl StaleQuery \<and>
         gammaAt I (snd (Solver_evolve step s)) x = Inl StaleQuery \<and>
         thetaAt I (snd (Solver_evolve step s)) x = Inl StaleQuery \<and>
         snd (evolve step (mode s) (solverDesc s) (schemeDesc s) (initialValues s)) = Inl e \<and>
         fst (evolve step (mode s) (solverDesc s) (schemeDesc s) (initialValues s)) \<noteq> [] \<and>
         distinct (fst (evolve step (mode s) (solverDesc s) (schemeDesc s) (initialValues s))) \<and>
         fst (evolve step (mode s) (solverDesc s) (schemeDesc s) (initialValues s))
           = take (length (fst (evolve step (mode s) (solverDesc s) (schemeDesc s) (initialValues s))))
               (scheme_plan (dampingSteps (solverDesc s)) (schemeDesc s)
                  (increments (mode s) (time_grid (solverDesc s)))) \<and>
         (\<exists>v. (case last (fst (evolve step (mode s) (solverDesc s) (schemeDesc s) (initialValues s))) of
                 (sch, t0, t1) \<Rightarrow> step sch t0 t1 v) = Inl e)"
proof -
  let ?ev = "evolve step (mode s) (solverDesc s) (schemeDesc s) (initialValues s)"
  let ?plan = "scheme_plan (dampingSteps (solverDesc s)) (schemeDesc s)
                 (increments (mode s) (time_grid (solverDesc s)))"
  from assms have err: "snd ?ev = Inl e"
    by (auto simp: Solver_evolve_def split: sum.splits)
  then have st: "solverState (snd (Solver_evolve step s)) = Failed"
    by (simp add: Solver_evolve_def)
  have q: "\<And>f. query f (snd (Solver_evolve step s)) x = Inl StaleQuery"
    by (simp add: query_def st)
  from err have "snd (run_steps step (mode s) (condition (solverDesc s)) ?plan (initialValues s)) = Inl e"
    by (simp add: evolve_def)
  from run_steps_fail [OF this]
  have tr: "fst ?ev \<noteq> []" "fst ?ev = take (length (fst ?ev)) ?plan"
    "\<exists>v. (case last (fst ?ev) of (sch, t0, t1) \<Rightarrow> step sch t0 t1 v) = Inl e"
    by (simp_all add: evolve_def)
  have "distinct ?plan"
    by (intro distinct_scheme_plan distinct_increments sorted_time_grid)
  then have "distinct (take (length (fst ?ev)) ?plan)" by (rule distinct_take)
  with tr(2) have d: "distinct (fst ?ev)" by simp
  show ?thesis
    using st q err tr d by (simp add: valueAt_def deltaAt_def gammaAt_def thetaAt_def)
qed

theorem C7_failed_solve_is_stale_witness:
  "fst (Solver_evolve singular_stepper example_solver) = Inl SingularSystem \<and>
   solverState (snd (Solver_evolve singular_stepper example_solver)) = Failed \<and>
   valueAt example_interpolation (snd (Solver_evolve singular_stepper example_solver)) (0::real)
     = Inl StaleQuery \<and>
   fst (evolve singular_stepper (mode example_solver) (solverDesc example_solver)
          (schemeDesc example_solver)
          (initialValues example_solver))
     = [(ImplicitEuler, 1, 1/2), (Douglas, 1/2, 1/4)]"
proof -
  have ev: "evolve singular_stepper (mode example_solver) (solverDesc example_solver)
          (schemeDesc example_solver)
              (initialValues example_solver)
            = ([(ImplicitEuler, 1, 1/2), (Douglas, 1/2, 1/4)], Inl SingularSystem)"
    by (simp add: example_solver_def example_evolve_fail)
  have h: "fst (Solver_evolve singular_stepper example_solver) = Inl SingularSystem"
    by (simp add: Solver_evolve_def ev)
  from C7_failed_solve_is_stale [OF h, of example_interpolation 0] h ev
  show ?thesis by simp
qed

end
